theory Spec2Isabelle
  imports Main "HOL-Library.Word"
begin

unbundle bit_operations_syntax

section \<open>Errors\<close>

text \<open>
  Every \<^verbatim>\<open>raise\<close> of \<^verbatim>\<open>id_generator.py\<close>, and every exception of the Python
  library calls it makes, is a value of \<open>error\<close>. The program itself only raises
  \<^verbatim>\<open>ValueError\<close>; the constructors keep the raise sites apart, with the values
  that the message interpolates.
\<close>

datatype error =
    PartsCountMismatch
      \<comment> \<open>\<^verbatim>\<open>ValueError('the number of parts must be the same with fields')\<close>\<close>
  | OutOfBitsRange int int int
      \<comment> \<open>\<^verbatim>\<open>ValueError('number {number} is out of its bits range ({bits} bits, 0 ~ {mask})')\<close>\<close>
  | HighestPartNotZero int
      \<comment> \<open>\<^verbatim>\<open>ValueError('the highest not used part is not 0, but {id_num}')\<close>\<close>
  | FieldOutOfRange string int
      \<comment> \<open>\<^verbatim>\<open>ValueError('field {name} number {number} is out of range')\<close>\<close>
  | NegativeShiftCount
      \<comment> \<open>\<^verbatim>\<open>ValueError('negative shift count')\<close>, raised by \<^verbatim>\<open><<\<close> and \<^verbatim>\<open>>>\<close>\<close>
  | InvalidLiteral
      \<comment> \<open>\<^verbatim>\<open>ValueError\<close> of \<^verbatim>\<open>int(str)\<close>\<close>
  | FormatMismatch
      \<comment> \<open>\<^verbatim>\<open>ValueError\<close> of \<^verbatim>\<open>strptime\<close>: no match, or unconverted data remains\<close>
  | FieldValueOutOfRange
      \<comment> \<open>\<^verbatim>\<open>ValueError\<close> of the \<^verbatim>\<open>datetime\<close> and \<^verbatim>\<open>time\<close> constructors\<close>
  | EmptyRange
      \<comment> \<open>\<^verbatim>\<open>ValueError\<close> of \<^verbatim>\<open>randint(a, b)\<close> with \<^verbatim>\<open>a > b\<close>\<close>
  | OverflowError
      \<comment> \<open>\<^verbatim>\<open>OverflowError\<close> of \<^verbatim>\<open>timedelta\<close> and of \<^verbatim>\<open>datetime + timedelta\<close>\<close>
  | TypeError
      \<comment> \<open>\<^verbatim>\<open>TypeError\<close>: \<^verbatim>\<open>strptime\<close> given an \<^verbatim>\<open>int\<close>\<close>
  | KeyError string
      \<comment> \<open>\<^verbatim>\<open>KeyError\<close> of \<^verbatim>\<open>info[k]\<close>\<close>
  | IndexError
      \<comment> \<open>\<^verbatim>\<open>IndexError\<close> of \<^verbatim>\<open>parts[i]\<close>\<close>

section \<open>Python's integer shifts\<close>

text \<open>
  Python integers are unbounded, so they are \<open>int\<close>. \<^verbatim>\<open>a << n\<close> and \<^verbatim>\<open>a >> n\<close>
  raise \<^verbatim>\<open>ValueError\<close> for a negative \<^verbatim>\<open>n\<close>; \<^verbatim>\<open>&\<close> and \<^verbatim>\<open>|\<close> are the bitwise
  operations of infinite two's complement, as \<open>AND\<close> and \<open>OR\<close> on \<open>int\<close> are.
\<close>

definition py_lshift :: "int \<Rightarrow> int \<Rightarrow> error + int" where
  "py_lshift a n = (if n < 0 then Inl NegativeShiftCount else Inr (push_bit (nat n) a))"

definition py_rshift :: "int \<Rightarrow> int \<Rightarrow> error + int" where
  "py_rshift a n = (if n < 0 then Inl NegativeShiftCount else Inr (drop_bit (nat n) a))"

section \<open>Data model\<close>

text \<open>
  A raw field value is \<^verbatim>\<open>typing.Union[int, str]\<close>.
\<close>

datatype raw = IntV int | StrV string

text \<open>
  A naive \<^verbatim>\<open>datetime.datetime\<close> at whole seconds (\<^verbatim>\<open>microsecond = 0\<close>): the
  formats of the program stop at the second, and with whole seconds the float arithmetic
  of \<^verbatim>\<open>DateTimeField.encode\<close> is exact.
\<close>

record datetime =
  year :: int
  month :: int
  day :: int
  hour :: int
  minute :: int
  second :: int

text \<open>
  \<^verbatim>\<open>DateTimeField.Precision\<close> and \<^verbatim>\<open>TimeField.Precision\<close> are two \<^verbatim>\<open>IntEnum\<close>s;
  the members of the second carry the prefix \<open>T_\<close> here.
\<close>

datatype DateTimeField_Precision = DAY | HOUR | MINUTE | SECOND

datatype TimeField_Precision = T_HOUR | T_MINUTE | T_SECOND

text \<open>
  The backing store of a \<^verbatim>\<open>SequenceField\<close>: \<^verbatim>\<open>FileCache(APPNAME + cache_name)\<close>
  when a cache name is given (two fields with one cache name share the file), and
  otherwise a \<^verbatim>\<open>dict\<close> of the field's own, told apart by a number.
\<close>

datatype cache_ref = FileCache string | OwnDict nat

text \<open>
  The four subclasses of \<^verbatim>\<open>IdField\<close>, with the attributes \<^verbatim>\<open>__init__\<close> leaves in
  the object: \<^verbatim>\<open>name\<close> and \<^verbatim>\<open>bits\<close> for all of them (\<^verbatim>\<open>bits\<close> is a Python
  \<^verbatim>\<open>int\<close>, nothing checks its sign), then
  \<^verbatim>\<open>precision, base\<close> / \<^verbatim>\<open>precision\<close> / \<^verbatim>\<open>start, step, keys, cache\<close> /
  \<^verbatim>\<open>start, end\<close>. \<^verbatim>\<open>keys\<close> is only tested for truth and iterated, so \<^verbatim>\<open>None\<close>
  is the empty list.
\<close>

datatype IdField =
    DateTimeField (name: string) (bits: int) DateTimeField_Precision datetime
  | TimeField (name: string) (bits: int) TimeField_Precision
  | SequenceField (name: string) (bits: int) "int \<times> int" "int \<times> int" "string list" cache_ref
  | NumberField (name: string) (bits: int) int int

text \<open>
  The property \<^verbatim>\<open>IdField.mask\<close>, \<^verbatim>\<open>(1 << self.bits) - 1\<close>: first as a function of
  \<^verbatim>\<open>bits\<close> (\<^verbatim>\<open>NumberField.__init__\<close> reads it while the object is built), then of
  the field.
\<close>

definition mask_bits :: "int \<Rightarrow> error + int" where
  "mask_bits b = (case py_lshift 1 b of Inl e \<Rightarrow> Inl e | Inr s \<Rightarrow> Inr (s - 1))"

definition mask_field :: "IdField \<Rightarrow> error + int" where
  "mask_field field = mask_bits (bits field)"

section \<open>The pack/unpack engine\<close>

text \<open>
  The loop of \<^verbatim>\<open>IdGenerator._assemble\<close> over \<^verbatim>\<open>zip(parts, self.fields)\<close>, with
  \<^verbatim>\<open>id_num\<close> as accumulator. With negative \<^verbatim>\<open>bits\<close> the property \<^verbatim>\<open>field.mask\<close>
  raises, in the comparison or else in the message of the \<^verbatim>\<open>raise\<close>.
\<close>

fun assemble_loop :: "int \<Rightarrow> (int \<times> IdField) list \<Rightarrow> error + int" where
  "assemble_loop id_num [] = Inr id_num"
| "assemble_loop id_num ((number, field) # rest) =
     (case mask_field field of
        Inl e \<Rightarrow> Inl e
      | Inr m \<Rightarrow>
          if \<not> (0 \<le> number \<and> number \<le> m) then Inl (OutOfBitsRange number (bits field) m)
          else (case py_lshift id_num (bits field) of
                  Inl e \<Rightarrow> Inl e
                | Inr shifted \<Rightarrow> assemble_loop (shifted OR number) rest))"

definition IdGenerator_assemble :: "IdField list \<Rightarrow> int list \<Rightarrow> error + int" where
  "IdGenerator_assemble flds parts =
     (if length parts \<noteq> length flds then Inl PartsCountMismatch
      else assemble_loop 0 (zip parts flds))"

text \<open>
  The loop of \<^verbatim>\<open>IdGenerator._disassemble\<close> over \<^verbatim>\<open>reversed(self.fields)\<close>; it
  carries \<^verbatim>\<open>id_num\<close> and \<^verbatim>\<open>parts\<close>.
\<close>

fun disassemble_loop :: "int \<Rightarrow> int list \<Rightarrow> IdField list \<Rightarrow> error + (int \<times> int list)" where
  "disassemble_loop id_num parts [] = Inr (id_num, parts)"
| "disassemble_loop id_num parts (field # rest) =
     (case mask_field field of
        Inl e \<Rightarrow> Inl e
      | Inr m \<Rightarrow>
          (case py_rshift id_num (bits field) of
             Inl e \<Rightarrow> Inl e
           | Inr id_num' \<Rightarrow> disassemble_loop id_num' (parts @ [id_num AND m]) rest))"

definition IdGenerator_disassemble :: "IdField list \<Rightarrow> int \<Rightarrow> error + int list" where
  "IdGenerator_disassemble flds id_num =
     (case disassemble_loop id_num [] (rev flds) of
        Inl e \<Rightarrow> Inl e
      | Inr (id_num', parts) \<Rightarrow>
          if id_num' \<noteq> 0 then Inl (HighestPartNotZero id_num') else Inr (rev parts))"

section \<open>The Python library calls of the program\<close>

text \<open>
  The fields call \<^verbatim>\<open>int\<close>, \<^verbatim>\<open>str\<close>, \<^verbatim>\<open>random.randint\<close> and the \<^verbatim>\<open>datetime\<close>
  module. They are modelled here after the documented behaviour of CPython, over ASCII
  strings, for the arguments the program passes.
\<close>

subsection \<open>Characters, \<^verbatim>\<open>str(int)\<close> and \<^verbatim>\<open>int(str)\<close>\<close>

definition digit_char :: "nat \<Rightarrow> char" where
  "digit_char d = char_of (48 + d)"

definition is_digit :: "char \<Rightarrow> bool" where
  "is_digit c \<longleftrightarrow> (48::nat) \<le> of_char c \<and> of_char c \<le> (57::nat)"

definition digit_val :: "char \<Rightarrow> int" where
  "digit_val c = int (of_char c) - 48"

text \<open>The ASCII characters for which \<^verbatim>\<open>str.isspace\<close> holds: 9 to 13, 28 to 32.\<close>

definition is_space :: "char \<Rightarrow> bool" where
  "is_space c \<longleftrightarrow>
     ((9::nat) \<le> of_char c \<and> of_char c \<le> (13::nat)) \<or>
     ((28::nat) \<le> of_char c \<and> of_char c \<le> (32::nat))"

fun str_nat :: "nat \<Rightarrow> string" where
  "str_nat n = (if n < 10 then [digit_char n] else str_nat (n div 10) @ [digit_char (n mod 10)])"

declare str_nat.simps [simp del]

text \<open>\<^verbatim>\<open>str(i)\<close> for an \<^verbatim>\<open>int\<close>.\<close>

definition str_int :: "int \<Rightarrow> string" where
  "str_int i = (if i < 0 then CHR ''-'' # str_nat (nat (- i)) else str_nat (nat i))"

text \<open>\<^verbatim>\<open>str(value)\<close> for a raw value.\<close>

fun str_raw :: "raw \<Rightarrow> string" where
  "str_raw (IntV i) = str_int i"
| "str_raw (StrV s) = s"

text \<open>\<^verbatim>\<open>s.zfill(width)\<close> for a string without sign.\<close>

definition zfill :: "nat \<Rightarrow> string \<Rightarrow> string" where
  "zfill width s = replicate (width - length s) CHR ''0'' @ s"

text \<open>
  The digits of a decimal literal after its first digit: digits, with single
  underscores between digits.
\<close>

fun digits_value :: "int \<Rightarrow> string \<Rightarrow> int option" where
  "digits_value acc [] = Some acc"
| "digits_value acc [c] = (if is_digit c then Some (10 * acc + digit_val c) else None)"
| "digits_value acc (c # d # cs) =
     (if is_digit c then digits_value (10 * acc + digit_val c) (d # cs)
      else if c = CHR ''_'' \<and> is_digit d then digits_value (10 * acc + digit_val d) cs
      else None)"

definition strip :: "string \<Rightarrow> string" where
  "strip s = rev (dropWhile is_space (rev (dropWhile is_space s)))"

text \<open>
  \<^verbatim>\<open>int(s)\<close> for a string: surrounding whitespace, an optional sign, a decimal
  literal; anything else raises \<^verbatim>\<open>ValueError\<close>. (The limit on the number of digits
  that newer versions of CPython put on the conversion is left out.)
\<close>

definition int_str :: "string \<Rightarrow> error + int" where
  "int_str s =
     (let t = strip s;
          (sign, u) = (case t of
                         [] \<Rightarrow> (1, t)
                       | c # r \<Rightarrow> if c = CHR ''-'' then (- 1, r)
                                  else if c = CHR ''+'' then (1, r) else (1, t))
      in case u of
           [] \<Rightarrow> Inl InvalidLiteral
         | c # cs \<Rightarrow>
             if is_digit c
             then (case digits_value (digit_val c) cs of
                     None \<Rightarrow> Inl InvalidLiteral
                   | Some v \<Rightarrow> Inr (sign * v))
             else Inl InvalidLiteral)"

text \<open>\<^verbatim>\<open>int(value)\<close> for a raw value.\<close>

fun py_int :: "raw \<Rightarrow> error + int" where
  "py_int (IntV i) = Inr i"
| "py_int (StrV s) = int_str s"

subsection \<open>\<^verbatim>\<open>random.Random().randint\<close>\<close>

text \<open>
  \<^verbatim>\<open>randint(a, b)\<close> raises \<^verbatim>\<open>ValueError\<close> for an empty range and otherwise returns
  some integer of \<open>[a, b]\<close>. The draw is a function of the entropy \<open>u\<close> the generator
  consumes: every value of the range is the result for some \<open>u\<close>, and nothing else is.
\<close>

definition randint :: "nat \<Rightarrow> int \<Rightarrow> int \<Rightarrow> error + int" where
  "randint u a b = (if b < a then Inl EmptyRange else Inr (a + int (u mod nat (b - a + 1))))"

subsection \<open>The proleptic Gregorian calendar of \<^verbatim>\<open>datetime\<close>\<close>

text \<open>
  The constants and functions of the module that turn a date into its ordinal (day 1 is
  \<^verbatim>\<open>0001-01-01\<close>) and back: \<^verbatim>\<open>_is_leap\<close>, \<^verbatim>\<open>_days_before_year\<close>,
  \<^verbatim>\<open>_days_in_month\<close>, \<^verbatim>\<open>_days_before_month\<close>, \<^verbatim>\<open>_ymd2ord\<close> and \<^verbatim>\<open>_ord2ymd\<close>,
  under their names without the underscore.
\<close>

definition MINYEAR :: int where "MINYEAR = 1"
definition MAXYEAR :: int where "MAXYEAR = 9999"
definition MAXORDINAL :: int where "MAXORDINAL = 3652059"

definition DAYS_IN_MONTH :: "int list" where
  "DAYS_IN_MONTH = [-1, 31, 28, 31, 30, 31, 30, 31, 31, 30, 31, 30, 31]"

definition DAYS_BEFORE_MONTH :: "int list" where
  "DAYS_BEFORE_MONTH = [-1, 0, 31, 59, 90, 120, 151, 181, 212, 243, 273, 304, 334]"

definition is_leap :: "int \<Rightarrow> bool" where
  "is_leap y \<longleftrightarrow> y mod 4 = 0 \<and> (y mod 100 \<noteq> 0 \<or> y mod 400 = 0)"

definition days_before_year :: "int \<Rightarrow> int" where
  "days_before_year y = (let y1 = y - 1 in y1 * 365 + y1 div 4 - y1 div 100 + y1 div 400)"

definition days_in_month :: "int \<Rightarrow> int \<Rightarrow> int" where
  "days_in_month y m = (if m = 2 \<and> is_leap y then 29 else DAYS_IN_MONTH ! nat m)"

definition days_before_month :: "int \<Rightarrow> int \<Rightarrow> int" where
  "days_before_month y m = DAYS_BEFORE_MONTH ! nat m + (if 2 < m \<and> is_leap y then 1 else 0)"

definition ymd2ord :: "int \<Rightarrow> int \<Rightarrow> int \<Rightarrow> int" where
  "ymd2ord y m d = days_before_year y + days_before_month y m + d"

definition DI400Y :: int where "DI400Y = 146097"
definition DI100Y :: int where "DI100Y = 36524"
definition DI4Y :: int where "DI4Y = 1461"

text \<open>
  \<^verbatim>\<open>_ord2ymd\<close>, in two parts: the month and the day from the day \<open>n\<close> of the year
  (counted from 0), and before it the year from the ordinal.
\<close>

definition month_day_of :: "bool \<Rightarrow> int \<Rightarrow> int \<times> int" where
  "month_day_of leapyear n =
     (let m = drop_bit 5 (n + 50);
          preceding = DAYS_BEFORE_MONTH ! nat m + (if 2 < m \<and> leapyear then 1 else 0)
      in if n < preceding
         then (let m' = m - 1;
                   preceding' = preceding -
                     (DAYS_IN_MONTH ! nat m' + (if m' = 2 \<and> leapyear then 1 else 0))
               in (m', n - preceding' + 1))
         else (m, n - preceding + 1))"

definition ord2ymd :: "int \<Rightarrow> int \<times> int \<times> int" where
  "ord2ymd ordinal =
     (let n = ordinal - 1;
          n400 = n div DI400Y; n = n mod DI400Y;
          y = n400 * 400 + 1;
          n100 = n div DI100Y; n = n mod DI100Y;
          n4 = n div DI4Y; n = n mod DI4Y;
          n1 = n div 365; n = n mod 365;
          y = y + n100 * 100 + n4 * 4 + n1
      in if n1 = 4 \<or> n100 = 4 then (y - 1, 12, 31)
         else (case month_day_of (n1 = 3 \<and> (n4 \<noteq> 24 \<or> n100 = 3)) n of
                 (m, d) \<Rightarrow> (y, m, d)))"

text \<open>
  The checks of the constructors \<^verbatim>\<open>datetime(year, month, day, hour, minute, second)\<close>
  and \<^verbatim>\<open>time(hour, minute, second)\<close>.
\<close>

definition check_date_fields :: "int \<Rightarrow> int \<Rightarrow> int \<Rightarrow> bool" where
  "check_date_fields y m d \<longleftrightarrow>
     MINYEAR \<le> y \<and> y \<le> MAXYEAR \<and> 1 \<le> m \<and> m \<le> 12 \<and> 1 \<le> d \<and> d \<le> days_in_month y m"

definition check_time_fields :: "int \<Rightarrow> int \<Rightarrow> int \<Rightarrow> bool" where
  "check_time_fields h mi s \<longleftrightarrow> 0 \<le> h \<and> h \<le> 23 \<and> 0 \<le> mi \<and> mi \<le> 59 \<and> 0 \<le> s \<and> s \<le> 59"

definition valid_datetime :: "datetime \<Rightarrow> bool" where
  "valid_datetime dt \<longleftrightarrow>
     check_date_fields (year dt) (month dt) (day dt) \<and>
     check_time_fields (hour dt) (minute dt) (second dt)"

definition datetime_new :: "int \<Rightarrow> int \<Rightarrow> int \<Rightarrow> int \<Rightarrow> int \<Rightarrow> int \<Rightarrow> error + datetime" where
  "datetime_new y m d h mi s =
     (if check_date_fields y m d \<and> check_time_fields h mi s
      then Inr \<lparr>year = y, month = m, day = d, hour = h, minute = mi, second = s\<rparr>
      else Inl FieldValueOutOfRange)"

definition toordinal :: "datetime \<Rightarrow> int" where
  "toordinal dt = ymd2ord (year dt) (month dt) (day dt)"

text \<open>
  \<^verbatim>\<open>(dt - base).total_seconds()\<close> for two naive datetimes at whole seconds: the difference
  of the ordinals in days, plus the difference of the seconds of the day.
\<close>

definition seconds_between :: "datetime \<Rightarrow> datetime \<Rightarrow> int" where
  "seconds_between dt base =
     (toordinal dt - toordinal base) * 86400 +
     ((second dt + minute dt * 60 + hour dt * 3600) -
      (second base + minute base * 60 + hour base * 3600))"

text \<open>
  \<^verbatim>\<open>base + datetime.timedelta(seconds=seconds)\<close>: the \<^verbatim>\<open>timedelta\<close> raises
  \<^verbatim>\<open>OverflowError\<close> when it has more than 999999999 days, the sum when its ordinal
  leaves \<open>[1, MAXORDINAL]\<close>.
\<close>

definition add_seconds :: "datetime \<Rightarrow> int \<Rightarrow> error + datetime" where
  "add_seconds base seconds =
     (if seconds div 86400 < - 999999999 \<or> 999999999 < seconds div 86400 then Inl OverflowError
      else
        let total = toordinal base * 86400 +
                    (second base + minute base * 60 + hour base * 3600) + seconds;
            days = total div 86400; rem = total mod 86400
        in if 0 < days \<and> days \<le> MAXORDINAL
           then (case ord2ymd days of
                   (y, m, d) \<Rightarrow>
                     Inr \<lparr>year = y, month = m, day = d, hour = rem div 3600,
                          minute = rem mod 3600 div 60, second = rem mod 3600 mod 60\<rparr>)
           else Inl OverflowError)"

subsection \<open>\<^verbatim>\<open>strftime\<close> and \<^verbatim>\<open>strptime\<close>\<close>

text \<open>
  The directives of the formats of this program, as the library documents them:
  \<^verbatim>\<open>%Y\<close> is the year in four digits (\<^verbatim>\<open>0001\<close> to \<^verbatim>\<open>9999\<close>; the C library of
  some platforms leaves years below 1000 unpadded), \<^verbatim>\<open>%m %d %H %M %S\<close> are two digits
  each, zero padded. Any other character of the format is copied.
\<close>

definition strftime_directive :: "datetime \<Rightarrow> char \<Rightarrow> string" where
  "strftime_directive dt c =
     (if c = CHR ''Y'' then zfill 4 (str_int (year dt))
      else if c = CHR ''m'' then zfill 2 (str_int (month dt))
      else if c = CHR ''d'' then zfill 2 (str_int (day dt))
      else if c = CHR ''H'' then zfill 2 (str_int (hour dt))
      else if c = CHR ''M'' then zfill 2 (str_int (minute dt))
      else if c = CHR ''S'' then zfill 2 (str_int (second dt))
      else [CHR ''%'', c])"

fun strftime :: "datetime \<Rightarrow> string \<Rightarrow> string" where
  "strftime dt [] = []"
| "strftime dt [c] = [c]"
| "strftime dt (c # d # rest) =
     (if c = CHR ''%'' then strftime_directive dt d @ strftime dt rest
      else c # strftime dt (d # rest))"

text \<open>
  \<^verbatim>\<open>strptime\<close> turns the format into a regular expression and matches it at the start
  of the data: a directive is a group of alternatives, tried in order; whitespace in
  the format is \<^verbatim>\<open>\s+\<close>; any other character stands for itself. The alternatives are
  those of \<^verbatim>\<open>_strptime.TimeRE\<close>; each is a sequence of character ranges.
\<close>

datatype format_item = Lit char | Spaces | Directive char

fun format_items :: "string \<Rightarrow> format_item list" where
  "format_items [] = []"
| "format_items [c] = [if is_space c then Spaces else Lit c]"
| "format_items (c # d # rest) =
     (if c = CHR ''%'' then Directive d # format_items rest
      else (if is_space c then Spaces else Lit c) # format_items (d # rest))"

definition directive_regex :: "char \<Rightarrow> (char \<times> char) list list" where
  "directive_regex c =
     (if c = CHR ''Y'' then
        [[(CHR ''0'', CHR ''9''), (CHR ''0'', CHR ''9''), (CHR ''0'', CHR ''9''), (CHR ''0'', CHR ''9'')]]
      else if c = CHR ''m'' then
        [[(CHR ''1'', CHR ''1''), (CHR ''0'', CHR ''2'')],
         [(CHR ''0'', CHR ''0''), (CHR ''1'', CHR ''9'')],
         [(CHR ''1'', CHR ''9'')]]
      else if c = CHR ''d'' then
        [[(CHR ''3'', CHR ''3''), (CHR ''0'', CHR ''1'')],
         [(CHR ''1'', CHR ''2''), (CHR ''0'', CHR ''9'')],
         [(CHR ''0'', CHR ''0''), (CHR ''1'', CHR ''9'')],
         [(CHR ''1'', CHR ''9'')],
         [(CHR '' '', CHR '' ''), (CHR ''1'', CHR ''9'')]]
      else if c = CHR ''H'' then
        [[(CHR ''2'', CHR ''2''), (CHR ''0'', CHR ''3'')],
         [(CHR ''0'', CHR ''1''), (CHR ''0'', CHR ''9'')],
         [(CHR ''0'', CHR ''9'')]]
      else if c = CHR ''M'' then
        [[(CHR ''0'', CHR ''5''), (CHR ''0'', CHR ''9'')],
         [(CHR ''0'', CHR ''9'')]]
      else if c = CHR ''S'' then
        [[(CHR ''6'', CHR ''6''), (CHR ''0'', CHR ''1'')],
         [(CHR ''0'', CHR ''5''), (CHR ''0'', CHR ''9'')],
         [(CHR ''0'', CHR ''9'')]]
      else [])"

definition in_range :: "char \<times> char \<Rightarrow> char \<Rightarrow> bool" where
  "in_range r c \<longleftrightarrow> (of_char (fst r) :: nat) \<le> of_char c \<and> (of_char c :: nat) \<le> of_char (snd r)"

text \<open>One alternative against the start of the data: the matched text and the rest.\<close>

fun match_alt :: "(char \<times> char) list \<Rightarrow> string \<Rightarrow> (string \<times> string) option" where
  "match_alt [] s = Some ([], s)"
| "match_alt (r # rs) [] = None"
| "match_alt (r # rs) (c # s) =
     (if in_range r c
      then (case match_alt rs s of None \<Rightarrow> None | Some (txt, rest) \<Rightarrow> Some (c # txt, rest))
      else None)"

text \<open>
  The rests of the data after \<^verbatim>\<open>\s+\<close>, the longest run of whitespace first.
\<close>

fun spaces_rests :: "string \<Rightarrow> string list" where
  "spaces_rests [] = []"
| "spaces_rests (c # s) = (if is_space c then spaces_rests s @ [s] else [])"

text \<open>
  The match of the backtracking matcher: the first choice of alternatives, in their
  order, for which the rest of the expression matches. It gives the text of each
  group and the unmatched rest of the data.
\<close>

fun regex_match :: "format_item list \<Rightarrow> string \<Rightarrow> ((char \<times> string) list \<times> string) option" where
  "regex_match [] s = Some ([], s)"
| "regex_match (Lit c # items) s =
     (case s of [] \<Rightarrow> None | x # xs \<Rightarrow> if x = c then regex_match items xs else None)"
| "regex_match (Spaces # items) s =
     (case List.map_filter (\<lambda>rest. regex_match items rest) (spaces_rests s) of
        [] \<Rightarrow> None
      | found # _ \<Rightarrow> Some found)"
| "regex_match (Directive d # items) s =
     (case List.map_filter
             (\<lambda>alt. case match_alt alt s of
                       None \<Rightarrow> None
                     | Some (txt, rest) \<Rightarrow>
                         (case regex_match items rest of
                            None \<Rightarrow> None
                          | Some (groups, rest') \<Rightarrow> Some ((d, txt) # groups, rest')))
             (directive_regex d) of
        [] \<Rightarrow> None
      | found # _ \<Rightarrow> Some found)"

text \<open>
  The value of a group is \<^verbatim>\<open>int(text)\<close>; a directive that the format does not have
  keeps its default (\<^verbatim>\<open>1900-01-01 00:00:00\<close>).
\<close>

definition group_value :: "(char \<times> string) list \<Rightarrow> char \<Rightarrow> int \<Rightarrow> error + int" where
  "group_value groups c dflt =
     (case map_of groups c of None \<Rightarrow> Inr dflt | Some txt \<Rightarrow> int_str txt)"

definition strptime :: "string \<Rightarrow> string \<Rightarrow> error + datetime" where
  "strptime data_string format =
     (case regex_match (format_items format) data_string of
        None \<Rightarrow> Inl FormatMismatch
      | Some (groups, rest) \<Rightarrow>
          if rest \<noteq> [] then Inl FormatMismatch
          else
            (case (group_value groups CHR ''Y'' 1900, group_value groups CHR ''m'' 1,
                   group_value groups CHR ''d'' 1, group_value groups CHR ''H'' 0,
                   group_value groups CHR ''M'' 0, group_value groups CHR ''S'' 0) of
               (Inr y, Inr m, Inr d, Inr h, Inr mi, Inr s) \<Rightarrow> datetime_new y m d h mi s
             | _ \<Rightarrow> Inl InvalidLiteral))"

section \<open>The fields\<close>

subsection \<open>Construction\<close>

text \<open>The values of the two \<^verbatim>\<open>IntEnum\<close>s: the seconds of one unit.\<close>

fun DateTimeField_Precision_value :: "DateTimeField_Precision \<Rightarrow> int" where
  "DateTimeField_Precision_value DAY = 3600 * 24"
| "DateTimeField_Precision_value HOUR = 3600"
| "DateTimeField_Precision_value MINUTE = 60"
| "DateTimeField_Precision_value SECOND = 1"

fun TimeField_Precision_value :: "TimeField_Precision \<Rightarrow> int" where
  "TimeField_Precision_value T_HOUR = 3600"
| "TimeField_Precision_value T_MINUTE = 60"
| "TimeField_Precision_value T_SECOND = 1"

fun DATE_TIME_FORMATS :: "DateTimeField_Precision \<Rightarrow> string" where
  "DATE_TIME_FORMATS DAY = ''%Y-%m-%d''"
| "DATE_TIME_FORMATS HOUR = ''%Y-%m-%d %H''"
| "DATE_TIME_FORMATS MINUTE = ''%Y-%m-%d %H:%M''"
| "DATE_TIME_FORMATS SECOND = ''%Y-%m-%d %H:%M:%S''"

fun TIME_FORMATS :: "TimeField_Precision \<Rightarrow> string" where
  "TIME_FORMATS T_HOUR = ''%H''"
| "TIME_FORMATS T_MINUTE = ''%H:%M''"
| "TIME_FORMATS T_SECOND = ''%H:%M:%S''"

definition APPNAME :: string where
  "APPNAME = ''com.github.calfzhou.idgen.''"

text \<open>
  \<^verbatim>\<open>NumberField.__init__(name, bits, start, end)\<close>: \<^verbatim>\<open>end\<close> is \<^verbatim>\<open>self.mask\<close> when
  it is \<^verbatim>\<open>None\<close>.
\<close>

definition NumberField_init :: "string \<Rightarrow> int \<Rightarrow> int \<Rightarrow> int option \<Rightarrow> error + IdField" where
  "NumberField_init nm b start end_opt =
     (case end_opt of
        Some e \<Rightarrow> Inr (NumberField nm b start e)
      | None \<Rightarrow> (case mask_bits b of Inl e \<Rightarrow> Inl e | Inr m \<Rightarrow> Inr (NumberField nm b start m)))"

text \<open>
  \<^verbatim>\<open>SequenceField.__init__(name, bits, start, step, keys, cache_name)\<close>: an \<^verbatim>\<open>int\<close>
  for \<^verbatim>\<open>start\<close> or \<^verbatim>\<open>step\<close> is the range of that one value; the cache is the file
  cache of \<^verbatim>\<open>APPNAME + cache_name\<close> when a name that is not empty is given, and else a
  new \<^verbatim>\<open>dict\<close> (the \<open>own\<close>-th of the program).
\<close>

definition SequenceField_init ::
  "string \<Rightarrow> int \<Rightarrow> int + int \<times> int \<Rightarrow> int + int \<times> int \<Rightarrow> string list option \<Rightarrow>
   string option \<Rightarrow> nat \<Rightarrow> IdField" where
  "SequenceField_init nm b start step keys cache_name own =
     SequenceField nm b
       (case start of Inl v \<Rightarrow> (v, v) | Inr r \<Rightarrow> r)
       (case step of Inl v \<Rightarrow> (v, v) | Inr r \<Rightarrow> r)
       (case keys of None \<Rightarrow> [] | Some ks \<Rightarrow> ks)
       (case cache_name of
          None \<Rightarrow> OwnDict own
        | Some cn \<Rightarrow> if cn = [] then OwnDict own else FileCache (APPNAME @ cn))"

subsection \<open>\<^verbatim>\<open>encode\<close>\<close>

text \<open>
  \<^verbatim>\<open>int(seconds / self.precision)\<close>: the quotient of the float division, truncated
  towards zero. The seconds between two datetimes of the years 1 to 9999 are below
  \<open>2 ^ 39\<close> and the precision is at most 86400, so the float quotient is an integer
  exactly when the division is exact and its truncation is that of the exact quotient.
\<close>

definition int_true_div :: "int \<Rightarrow> int \<Rightarrow> int" where
  "int_true_div a b = (if 0 \<le> a then a div b else - (- a div b))"

text \<open>
  \<^verbatim>\<open>encode\<close> of the four classes: \<^verbatim>\<open>IdField.encode\<close> for \<^verbatim>\<open>SequenceField\<close> and
  \<^verbatim>\<open>NumberField\<close>, which do not override it. \<^verbatim>\<open>strptime\<close> raises \<^verbatim>\<open>TypeError\<close>
  for a value that is not a string.
\<close>

fun encode :: "IdField \<Rightarrow> raw \<Rightarrow> error + int" where
  "encode (DateTimeField nm b precision base) v =
     (case v of
        IntV _ \<Rightarrow> Inl TypeError
      | StrV s \<Rightarrow>
          (case strptime s (DATE_TIME_FORMATS precision) of
             Inl e \<Rightarrow> Inl e
           | Inr dt \<Rightarrow>
               Inr (int_true_div (seconds_between dt base) (DateTimeField_Precision_value precision))))"
| "encode (TimeField nm b precision) v =
     (case v of
        IntV _ \<Rightarrow> Inl TypeError
      | StrV s \<Rightarrow>
          (case strptime s (TIME_FORMATS precision) of
             Inl e \<Rightarrow> Inl e
           | Inr t \<Rightarrow>
               Inr ((hour t * 3600 + minute t * 60 + second t) div TimeField_Precision_value precision)))"
| "encode (SequenceField nm b start step keys cache) v = py_int v"
| "encode (NumberField nm b start end) v = py_int v"

subsection \<open>\<^verbatim>\<open>decode\<close>\<close>

text \<open>
  \<^verbatim>\<open>datetime.time(hour, minute, second)\<close>: \<^verbatim>\<open>OverflowError\<close> for an argument that is
  no C \<^verbatim>\<open>int\<close>, \<^verbatim>\<open>ValueError\<close> for one out of its range. The result is kept as a
  \<open>datetime\<close> of the date \<^verbatim>\<open>1900-01-01\<close>, which is what \<^verbatim>\<open>time.strftime\<close> formats.
\<close>

definition time_new :: "int \<Rightarrow> int \<Rightarrow> int \<Rightarrow> error + datetime" where
  "time_new h mi s =
     (if h < - (2 ^ 31) \<or> 2 ^ 31 \<le> h then Inl OverflowError
      else if check_time_fields h mi s
      then Inr \<lparr>year = 1900, month = 1, day = 1, hour = h, minute = mi, second = s\<rparr>
      else Inl FieldValueOutOfRange)"

fun decode :: "IdField \<Rightarrow> int \<Rightarrow> error + raw" where
  "decode (DateTimeField nm b precision base) number =
     (case add_seconds base (number * DateTimeField_Precision_value precision) of
        Inl e \<Rightarrow> Inl e
      | Inr dt \<Rightarrow> Inr (StrV (strftime dt (DATE_TIME_FORMATS precision))))"
| "decode (TimeField nm b precision) number =
     (let seconds = number * TimeField_Precision_value precision;
          h = seconds div 3600; seconds = seconds mod 3600;
          mi = seconds div 60; s = seconds mod 60
      in case time_new h mi s of
           Inl e \<Rightarrow> Inl e
         | Inr t \<Rightarrow> Inr (StrV (strftime t (TIME_FORMATS precision))))"
| "decode (SequenceField nm b start step keys cache) number = Inr (IntV number)"
| "decode (NumberField nm b start end) number =
     (if \<not> (start \<le> number \<and> number \<le> end) then Inl (FieldOutOfRange nm number)
      else Inr (IntV number))"

subsection \<open>\<^verbatim>\<open>generate\<close>\<close>

text \<open>
  What a call of \<^verbatim>\<open>generate\<close> reads from outside the program: the clock
  (\<^verbatim>\<open>datetime.now()\<close>) and the entropy of the field's own \<^verbatim>\<open>random.Random()\<close>. Both
  are given for each position of the field list, since every field reads them at most
  once in a call of \<^verbatim>\<open>IdGenerator.generate\<close>.
\<close>

record env =
  clock :: "nat \<Rightarrow> datetime"
  entropy :: "nat \<Rightarrow> nat"

text \<open>
  The generation context \<^verbatim>\<open>info\<close> and the counter store: one dictionary from keys to
  counters for every cache.
\<close>

type_synonym info = "string \<rightharpoonup> raw"

type_synonym counter_store = "cache_ref \<Rightarrow> (string \<rightharpoonup> int)"

text \<open>\<^verbatim>\<open>'-'.join(parts)\<close>.\<close>

fun join_dash :: "string list \<Rightarrow> string" where
  "join_dash [] = []"
| "join_dash [s] = s"
| "join_dash (s # t # rest) = s @ CHR ''-'' # join_dash (t # rest)"

text \<open>\<^verbatim>\<open>str(info[k]) for k in self.keys\<close>: the first missing key raises.\<close>

fun key_parts :: "info \<Rightarrow> string list \<Rightarrow> error + string list" where
  "key_parts info [] = Inr []"
| "key_parts info (k # ks) =
     (case info k of
        None \<Rightarrow> Inl (KeyError k)
      | Some v \<Rightarrow> (case key_parts info ks of Inl e \<Rightarrow> Inl e | Inr ps \<Rightarrow> Inr (str_raw v # ps)))"

text \<open>The key of a \<^verbatim>\<open>SequenceField\<close> in its cache.\<close>

definition sequence_key :: "string \<Rightarrow> string list \<Rightarrow> info \<Rightarrow> error + string" where
  "sequence_key nm keys info =
     (if keys \<noteq> [] then (case key_parts info keys of Inl e \<Rightarrow> Inl e | Inr ps \<Rightarrow> Inr (join_dash ps))
      else Inr nm)"

text \<open>\<^verbatim>\<open>SequenceField._new_seq\<close> and \<^verbatim>\<open>SequenceField._next_seq\<close>.\<close>

definition new_seq :: "nat \<Rightarrow> int \<times> int \<Rightarrow> error + int" where
  "new_seq u start = randint u (fst start) (snd start)"

definition next_seq :: "nat \<Rightarrow> int \<times> int \<Rightarrow> int \<Rightarrow> error + int" where
  "next_seq u step prev = (case randint u (fst step) (snd step) of Inl e \<Rightarrow> Inl e | Inr r \<Rightarrow> Inr (prev + r))"

text \<open>
  \<^verbatim>\<open>generate(info)\<close> of the four classes, for the field at position \<open>i\<close>. It returns
  the store with the value or the exception: only \<^verbatim>\<open>self.cache[key] = seq\<close> of
  \<^verbatim>\<open>SequenceField.generate\<close> writes, after the new counter is computed.
\<close>

fun generate :: "env \<Rightarrow> nat \<Rightarrow> IdField \<Rightarrow> counter_store \<Rightarrow> info \<Rightarrow> counter_store \<times> (error + raw)" where
  "generate ev i (DateTimeField nm b precision base) store info =
     (store, Inr (StrV (strftime (clock ev i) (DATE_TIME_FORMATS precision))))"
| "generate ev i (TimeField nm b precision) store info =
     (store, Inr (StrV (strftime (clock ev i) (TIME_FORMATS precision))))"
| "generate ev i (SequenceField nm b start step keys cache) store info =
     (case sequence_key nm keys info of
        Inl e \<Rightarrow> (store, Inl e)
      | Inr key \<Rightarrow>
          (case (case store cache key of
                   Some prev \<Rightarrow> next_seq (entropy ev i) step prev
                 | None \<Rightarrow> new_seq (entropy ev i) start) of
             Inl e \<Rightarrow> (store, Inl e)
           | Inr seq \<Rightarrow> (store (cache := (store cache) (key \<mapsto> seq)), Inr (IntV seq))))"
| "generate ev i (NumberField nm b start end) store info =
     (store, (case randint (entropy ev i) start end of Inl e \<Rightarrow> Inl e | Inr r \<Rightarrow> Inr (IntV r)))"

section \<open>The generator\<close>

text \<open>
  An \<^verbatim>\<open>IdGenerator\<close> is a name and a list of fields; its methods read
  \<^verbatim>\<open>self.fields\<close> only, so they take the list.
\<close>





definition IdGenerator_parse_id :: "raw \<Rightarrow> error + int" where
  "IdGenerator_parse_id the_id = py_int the_id"


text \<open>
  \<^verbatim>\<open>IdGenerator._decode(parts)\<close>: the dictionary comprehension over
  \<^verbatim>\<open>enumerate(self.fields)\<close>.
\<close>

fun decode_loop :: "nat \<Rightarrow> IdField list \<Rightarrow> int list \<Rightarrow> info \<Rightarrow> error + info" where
  "decode_loop i [] parts info = Inr info"
| "decode_loop i (field # rest) parts info =
     (if length parts \<le> i then Inl IndexError
      else (case decode field (parts ! i) of
              Inl e \<Rightarrow> Inl e
            | Inr v \<Rightarrow> decode_loop (Suc i) rest parts (info (name field \<mapsto> v))))"

definition IdGenerator_decode :: "IdField list \<Rightarrow> int list \<Rightarrow> error + info" where
  "IdGenerator_decode flds parts = decode_loop 0 flds parts Map.empty"

text \<open>\<^verbatim>\<open>IdGenerator.parse(the_id)\<close>.\<close>

definition IdGenerator_parse :: "IdField list \<Rightarrow> raw \<Rightarrow> error + info" where
  "IdGenerator_parse flds the_id =
     (case IdGenerator_parse_id the_id of
        Inl e \<Rightarrow> Inl e
      | Inr id_num \<Rightarrow>
          (case IdGenerator_disassemble flds id_num of
             Inl e \<Rightarrow> Inl e
           | Inr parts \<Rightarrow> IdGenerator_decode flds parts))"

section \<open>Definitions for the statements\<close>

text \<open>
  A part is within the mask of its field when it lies in \<open>[0, 2 ^ bits - 1]\<close>. For a
  negative \<open>bits\<close> that interval of the rationals holds no integer, so \<open>0 \<le> bits\<close> is
  part of the condition.
\<close>

definition within_mask :: "IdField \<Rightarrow> int \<Rightarrow> bool" where
  "within_mask field number \<longleftrightarrow>
     0 \<le> bits field \<and> 0 \<le> number \<and> number \<le> 2 ^ nat (bits field) - 1"

text \<open>The total declared width of a field list.\<close>

definition total_bits :: "IdField list \<Rightarrow> int" where
  "total_bits flds = sum_list (map bits flds)"

text \<open>
  The closed form of the specification, in its words: the sum over the fields of
  \<open>part[i] << (bits[i+1] + ... + bits[n-1])\<close>.
\<close>

definition spec_closed_form :: "IdField list \<Rightarrow> int list \<Rightarrow> int" where
  "spec_closed_form flds parts =
     (\<Sum>i\<leftarrow>[0..<length flds]. push_bit (nat (total_bits (drop (Suc i) flds))) (parts ! i))"

text \<open>
  The slices of an integer for a list of fields, lowest bits first: what the loop of
  \<^verbatim>\<open>_disassemble\<close> appends when no shift raises.
\<close>

fun low_parts :: "int \<Rightarrow> IdField list \<Rightarrow> int list" where
  "low_parts n [] = []"
| "low_parts n (f # r) = take_bit (nat (bits f)) n # low_parts (drop_bit (nat (bits f)) n) r"

text \<open>
  The fields of the generator \<^verbatim>\<open>'order'\<close> of \<^verbatim>\<open>get_generators\<close>, as the objects
  that the constructors build.
\<close>

definition order_fields :: "IdField list" where
  "order_fields =
     [NumberField ''placeholder'' 1 1 1,
      DateTimeField ''time'' 29 SECOND
        \<lparr>year = 2018, month = 1, day = 1, hour = 0, minute = 0, second = 0\<rparr>,
      SequenceField ''sequence'' 16 (0, 10000) (1, 10) [''time'']
        (FileCache ''com.github.calfzhou.idgen.order'')]"

text \<open>
  An environment, the empty store and the cache of the generator \<^verbatim>\<open>'order'\<close>, for
  the concrete runs below.
\<close>

definition example_env :: env where
  "example_env =
     \<lparr>clock = (\<lambda>i. \<lparr>year = 2018, month = 1, day = 1, hour = 0, minute = 0, second = 5\<rparr>),
      entropy = (\<lambda>i. 7)\<rparr>"

definition empty_store :: counter_store where
  "empty_store = (\<lambda>cache. Map.empty)"

definition order_cache :: cache_ref where
  "order_cache = FileCache ''com.github.calfzhou.idgen.order''"

text \<open>
  The seconds of a datetime from the start of day 0 of the proleptic calendar, and the
  base of the generators of \<^verbatim>\<open>get_generators\<close>, \<^verbatim>\<open>datetime.datetime(2018, 1, 1)\<close>.
\<close>

definition timestamp :: "datetime \<Rightarrow> int" where
  "timestamp dt = toordinal dt * 86400 + (second dt + minute dt * 60 + hour dt * 3600)"

definition base_2018 :: datetime where
  "base_2018 = \<lparr>year = 2018, month = 1, day = 1, hour = 0, minute = 0, second = 0\<rparr>"


section \<open>Verification of the pack/unpack engine\<close>

lemma mask_field_nonneg: "0 \<le> bits f \<Longrightarrow> mask_field f = Inr (mask (nat (bits f)))"
  by (simp add: mask_field_def mask_bits_def py_lshift_def mask_eq_exp_minus_1)

lemma mask_field_neg: "bits f < 0 \<Longrightarrow> mask_field f = Inl NegativeShiftCount"
  by (simp add: mask_field_def mask_bits_def py_lshift_def)

lemma unpack_step:
  fixes p :: int
  assumes "0 \<le> p" "p \<le> 2 ^ b - 1"
  shows "take_bit b (push_bit b x OR p) = p" "drop_bit b (push_bit b x OR p) = x"
proof -
  have lt: "p < 2 ^ b" using assms by simp
  have tb: "take_bit b p = p" using assms lt by (simp add: take_bit_int_eq_self)
  show "take_bit b (push_bit b x OR p) = p"
    using tb by (simp add: take_bit_push_bit)
  have "drop_bit b p = 0" using assms lt by (simp add: drop_bit_eq_div)
  then show "drop_bit b (push_bit b x OR p) = x" by (simp add: drop_bit_push_bit)
qed

lemma pack_step:
  fixes p :: int
  assumes "0 \<le> p" "p \<le> 2 ^ b - 1"
  shows "push_bit b x OR p = x * 2 ^ b + p"
proof -
  have "take_bit b p = p" using assms by (simp add: take_bit_int_eq_self)
  then have "\<not> bit (push_bit b x) n \<or> \<not> bit p n" for n
    by (metis bit_push_bit_iff bit_take_bit_iff not_le)
  then have "push_bit b x + p = push_bit b x OR p" by (rule disjunctive_add)
  then show ?thesis by (simp add: push_bit_eq_mult)
qed

lemma total_bits_nonneg: "list_all (\<lambda>f. 0 \<le> bits f) fs \<Longrightarrow> 0 \<le> total_bits fs"
  by (induction fs) (auto simp: total_bits_def)

lemma total_bits_Cons: "total_bits (f # fs) = bits f + total_bits fs"
  by (simp add: total_bits_def)

lemma total_bits_append: "total_bits (fs @ gs) = total_bits fs + total_bits gs"
  by (simp add: total_bits_def)

lemma total_bits_rev: "total_bits (rev fs) = total_bits fs"
  by (simp add: total_bits_def rev_map [symmetric])

lemma assemble_loop_append:
  "assemble_loop a (xs @ ys) =
     (case assemble_loop a xs of Inl e \<Rightarrow> Inl e | Inr a' \<Rightarrow> assemble_loop a' ys)"
proof (induction xs arbitrary: a)
  case Nil
  show ?case by simp
next
  case (Cons x xs)
  obtain number field where x: "x = (number, field)" by (cases x)
  show ?case
    by (simp add: x Cons.IH split: sum.splits)
qed

lemma disassemble_loop_ok:
  "list_all (\<lambda>f. 0 \<le> bits f) fs \<Longrightarrow>
   disassemble_loop n acc fs = Inr (drop_bit (nat (total_bits fs)) n, acc @ low_parts n fs)"
proof (induction fs arbitrary: n acc)
  case Nil
  show ?case by (simp add: total_bits_def)
next
  case (Cons f fs)
  from Cons.prems have f: "0 \<le> bits f" and fs: "list_all (\<lambda>f. 0 \<le> bits f) fs" by simp_all
  have "nat (total_bits (f # fs)) = nat (bits f) + nat (total_bits fs)"
    using f total_bits_nonneg [OF fs] by (simp add: total_bits_Cons nat_add_distrib)
  then show ?case
    using f by (simp add: mask_field_nonneg py_rshift_def Cons.IH [OF fs] take_bit_eq_mask add.commute)
qed

lemma disassemble_loop_neg:
  "\<not> list_all (\<lambda>f. 0 \<le> bits f) fs \<Longrightarrow> disassemble_loop n acc fs = Inl NegativeShiftCount"
proof (induction fs arbitrary: n acc)
  case Nil
  then show ?case by simp
next
  case (Cons f fs)
  show ?case
  proof (cases "0 \<le> bits f")
    case True
    with Cons.prems have "\<not> list_all (\<lambda>f. 0 \<le> bits f) fs" by simp
    then show ?thesis using True by (simp add: mask_field_nonneg py_rshift_def Cons.IH)
  next
    case False
    then show ?thesis by (simp add: mask_field_neg)
  qed
qed

lemma length_low_parts: "length (low_parts n fs) = length fs"
  by (induction fs arbitrary: n) simp_all

lemma low_parts_nth:
  "i < length fs \<Longrightarrow>
   low_parts n fs ! i =
     take_bit (nat (bits (fs ! i))) (drop_bit (sum_list (map (\<lambda>f. nat (bits f)) (take i fs))) n)"
proof (induction fs arbitrary: n i)
  case Nil
  then show ?case by simp
next
  case (Cons f fs)
  show ?case
  proof (cases i)
    case 0
    then show ?thesis by simp
  next
    case (Suc j)
    with Cons.prems have "j < length fs" by simp
    from Cons.IH [OF this] show ?thesis by (simp add: Suc add.commute)
  qed
qed

lemma nat_total_bits:
  "list_all (\<lambda>f. 0 \<le> bits f) fs \<Longrightarrow> nat (total_bits fs) = sum_list (map (\<lambda>f. nat (bits f)) fs)"
proof (induction fs)
  case Nil
  show ?case by (simp add: total_bits_def)
next
  case (Cons f fs)
  then show ?case
    using total_bits_nonneg [of fs] by (simp add: total_bits_Cons nat_add_distrib)
qed

lemma disassemble_eq:
  "list_all (\<lambda>f. 0 \<le> bits f) fs \<Longrightarrow>
   IdGenerator_disassemble fs n =
     (if drop_bit (nat (total_bits fs)) n \<noteq> 0
      then Inl (HighestPartNotZero (drop_bit (nat (total_bits fs)) n))
      else Inr (rev (low_parts n (rev fs))))"
  by (simp add: IdGenerator_disassemble_def disassemble_loop_ok total_bits_rev)




lemma list_all2_snocE:
  assumes "list_all2 P ps (fs @ [f])"
  obtains ps' p where "ps = ps' @ [p]" "list_all2 P ps' fs" "P p f"
proof -
  from assms have "length ps = Suc (length fs)" by (auto dest: list_all2_lengthD)
  then obtain ps' p where ps: "ps = ps' @ [p]" and len: "length ps' = length fs"
    by (auto simp: length_Suc_conv_rev)
  from assms have "list_all2 P ps' fs \<and> P p f"
    by (simp add: ps list_all2_append [OF len])
  with ps that show thesis by blast
qed

lemma within_mask_bits: "list_all2 (\<lambda>p f. within_mask f p) ps fs \<Longrightarrow> list_all (\<lambda>f. 0 \<le> bits f) fs"
  by (induction rule: list_all2_induct) (simp_all add: within_mask_def)

lemma spec_closed_form_snoc:
  assumes len: "length ps = length fs" and wf: "list_all (\<lambda>f. 0 \<le> bits f) fs" and b: "0 \<le> bits f"
  shows "spec_closed_form (fs @ [f]) (ps @ [p]) = spec_closed_form fs ps * 2 ^ nat (bits f) + p"
proof -
  have summand: "push_bit (nat (total_bits (drop (Suc i) (fs @ [f])))) ((ps @ [p]) ! i) =
      push_bit (nat (total_bits (drop (Suc i) fs))) (ps ! i) * 2 ^ nat (bits f)"
    if "i < length fs" for i
  proof -
    have "list_all (\<lambda>f. 0 \<le> bits f) (drop (Suc i) fs)"
      using wf by (auto simp: list_all_iff dest: in_set_dropD)
    then have "0 \<le> total_bits (drop (Suc i) fs)" by (rule total_bits_nonneg)
    then have "nat (total_bits (drop (Suc i) (fs @ [f]))) =
        nat (total_bits (drop (Suc i) fs)) + nat (bits f)"
      using that b by (simp add: total_bits_append total_bits_Cons total_bits_def nat_add_distrib)
    then show ?thesis
      using that len by (simp add: nth_append push_bit_eq_mult power_add)
  qed
  have "spec_closed_form (fs @ [f]) (ps @ [p]) =
      (\<Sum>i\<leftarrow>[0..<length fs]. push_bit (nat (total_bits (drop (Suc i) (fs @ [f])))) ((ps @ [p]) ! i)) + p"
    using len by (simp add: spec_closed_form_def total_bits_def nth_append)
  also have "(\<Sum>i\<leftarrow>[0..<length fs]. push_bit (nat (total_bits (drop (Suc i) (fs @ [f])))) ((ps @ [p]) ! i)) =
      (\<Sum>i\<leftarrow>[0..<length fs]. push_bit (nat (total_bits (drop (Suc i) fs))) (ps ! i) * 2 ^ nat (bits f))"
    by (rule arg_cong [where f = sum_list], rule map_cong [OF refl], rule summand, simp)
  also have "\<dots> = spec_closed_form fs ps * 2 ^ nat (bits f)"
    by (simp add: spec_closed_form_def sum_list_mult_const)
  finally show ?thesis .
qed

lemma assemble_loop_spec:
  "list_all2 (\<lambda>p f. within_mask f p) ps fs \<Longrightarrow>
   assemble_loop 0 (zip ps fs) = Inr (spec_closed_form fs ps) \<and> 0 \<le> spec_closed_form fs ps"
proof (induction fs arbitrary: ps rule: rev_induct)
  case Nil
  then show ?case by (simp add: spec_closed_form_def)
next
  case (snoc f fs)
  from snoc.prems obtain ps' p where ps: "ps = ps' @ [p]"
    and all: "list_all2 (\<lambda>p f. within_mask f p) ps' fs" and p: "within_mask f p"
    by (rule list_all2_snocE)
  have len: "length ps' = length fs" using all by (rule list_all2_lengthD)
  from snoc.IH [OF all] have ih: "assemble_loop 0 (zip ps' fs) = Inr (spec_closed_form fs ps')"
    and nn: "0 \<le> spec_closed_form fs ps'" by simp_all
  have b: "0 \<le> bits f" and p0: "0 \<le> p" and p1: "p \<le> 2 ^ nat (bits f) - 1"
    using p by (simp_all add: within_mask_def)
  have cf: "spec_closed_form (fs @ [f]) ps = spec_closed_form fs ps' * 2 ^ nat (bits f) + p"
    unfolding ps using len within_mask_bits [OF all] b by (rule spec_closed_form_snoc)
  have "assemble_loop 0 (zip ps (fs @ [f])) = assemble_loop (spec_closed_form fs ps') [(p, f)]"
    using len by (simp add: ps assemble_loop_append ih)
  also have "\<dots> = Inr (push_bit (nat (bits f)) (spec_closed_form fs ps') OR p)"
    using b p0 p1 by (simp add: mask_field_nonneg py_lshift_def mask_eq_exp_minus_1)
  also have "push_bit (nat (bits f)) (spec_closed_form fs ps') OR p = spec_closed_form (fs @ [f]) ps"
    using p0 p1 by (simp add: pack_step cf)
  finally have "assemble_loop 0 (zip ps (fs @ [f])) = Inr (spec_closed_form (fs @ [f]) ps)" .
  moreover have "0 \<le> spec_closed_form (fs @ [f]) ps"
    using nn p0 by (simp add: cf)
  ultimately show ?case by simp
qed

lemma low_parts_spec:
  "list_all2 (\<lambda>p f. within_mask f p) ps fs \<Longrightarrow>
   low_parts (spec_closed_form fs ps) (rev fs) = rev ps \<and>
   drop_bit (nat (total_bits fs)) (spec_closed_form fs ps) = 0"
proof (induction fs arbitrary: ps rule: rev_induct)
  case Nil
  then show ?case by (simp add: spec_closed_form_def total_bits_def)
next
  case (snoc f fs)
  from snoc.prems obtain ps' p where ps: "ps = ps' @ [p]"
    and all: "list_all2 (\<lambda>p f. within_mask f p) ps' fs" and p: "within_mask f p"
    by (rule list_all2_snocE)
  have len: "length ps' = length fs" using all by (rule list_all2_lengthD)
  have b: "0 \<le> bits f" and p0: "0 \<le> p" and p1: "p \<le> 2 ^ nat (bits f) - 1"
    using p by (simp_all add: within_mask_def)
  have wf: "list_all (\<lambda>f. 0 \<le> bits f) fs" using all by (rule within_mask_bits)
  have cf: "spec_closed_form (fs @ [f]) (ps' @ [p]) = push_bit (nat (bits f)) (spec_closed_form fs ps') OR p"
    using p0 p1 by (simp add: spec_closed_form_snoc [OF len wf b] pack_step)
  have tb: "nat (total_bits (fs @ [f])) = nat (bits f) + nat (total_bits fs)"
    using b total_bits_nonneg [OF wf] by (simp add: total_bits_append total_bits_Cons total_bits_def nat_add_distrib)
  have lo: "take_bit (nat (bits f)) (spec_closed_form (fs @ [f]) (ps' @ [p])) = p"
    and hi: "drop_bit (nat (bits f)) (spec_closed_form (fs @ [f]) (ps' @ [p])) = spec_closed_form fs ps'"
    unfolding cf using p0 p1 by (rule unpack_step)+
  have "drop_bit (nat (total_bits (fs @ [f]))) (spec_closed_form (fs @ [f]) (ps' @ [p])) =
      drop_bit (nat (total_bits fs)) (drop_bit (nat (bits f)) (spec_closed_form (fs @ [f]) (ps' @ [p])))"
    by (simp add: tb add.commute)
  then have "drop_bit (nat (total_bits (fs @ [f]))) (spec_closed_form (fs @ [f]) (ps' @ [p])) = 0"
    using snoc.IH [OF all] by (simp only: hi)
  moreover have "low_parts (spec_closed_form (fs @ [f]) (ps' @ [p])) (rev (fs @ [f])) = rev (ps' @ [p])"
    using snoc.IH [OF all] by (simp add: lo hi)
  ultimately show ?case by (simp only: ps)
qed

text \<open>
  Claim C1 (assemble/disassemble inverse). For every field list and every list of parts
  with one entry per field, each within \<open>[0, 2 ^ bits - 1]\<close> of its field,
  \<^verbatim>\<open>_assemble(parts)\<close> returns an integer and \<^verbatim>\<open>_disassemble\<close> of that integer
  returns \<open>parts\<close>.
\<close>

theorem assemble_disassemble_inverse:
  assumes "list_all2 (\<lambda>number field. within_mask field number) parts flds"
  shows "\<exists>id_num. IdGenerator_assemble flds parts = Inr id_num \<and>
           IdGenerator_disassemble flds id_num = Inr parts"
proof -
  have len: "length parts = length flds" using assms by (rule list_all2_lengthD)
  have wf: "list_all (\<lambda>f. 0 \<le> bits f) flds" using assms by (rule within_mask_bits)
  have "IdGenerator_assemble flds parts = Inr (spec_closed_form flds parts)"
    using len assemble_loop_spec [OF assms] by (simp add: IdGenerator_assemble_def)
  moreover have "IdGenerator_disassemble flds (spec_closed_form flds parts) = Inr parts"
    using low_parts_spec [OF assms] by (simp add: disassemble_eq [OF wf])
  ultimately show ?thesis by blast
qed



theorem assemble_disassemble_inverse_witness:
  "list_all2 (\<lambda>number field. within_mask field number) [1, 5, 42] order_fields \<and>
   (\<exists>id_num. IdGenerator_assemble order_fields [1, 5, 42] = Inr id_num \<and>
      IdGenerator_disassemble order_fields id_num = Inr [1, 5, 42])"
  using assemble_disassemble_inverse [of "[1, 5, 42]" order_fields]
  by (simp add: order_fields_def within_mask_def)

lemma assemble_loop_out_of_range:
  assumes "length ps = length fs" "list_all (\<lambda>f. 0 \<le> bits f) fs"
    "\<not> list_all2 (\<lambda>p f. within_mask f p) ps fs"
  shows "\<exists>number b m. assemble_loop a (zip ps fs) = Inl (OutOfBitsRange number b m)"
  using assms
proof (induction ps fs arbitrary: a rule: list_induct2)
  case Nil
  then show ?case by simp
next
  case (Cons p ps f fs)
  from Cons.prems have b: "0 \<le> bits f" and wf: "list_all (\<lambda>f. 0 \<le> bits f) fs" by simp_all
  show ?case
  proof (cases "within_mask f p")
    case True
    with Cons.prems have "\<not> list_all2 (\<lambda>p f. within_mask f p) ps fs" by simp
    from Cons.IH [OF wf this] True b show ?thesis
      by (simp add: mask_field_nonneg py_lshift_def mask_eq_exp_minus_1 within_mask_def)
  next
    case False
    with b show ?thesis
      by (auto simp: mask_field_nonneg mask_eq_exp_minus_1 within_mask_def)
  qed
qed

text \<open>
  Claim C4 (assemble error). For fields of non-negative width and one part per field,
  \<^verbatim>\<open>_assemble\<close> raises its out-of-bits-range error exactly when some part lies
  outside \<open>[0, 2 ^ bits - 1]\<close> of its field; when every part is in range it returns the
  packed integer.
\<close>

theorem assemble_error_iff:
  assumes "length parts = length flds" and "list_all (\<lambda>field. 0 \<le> bits field) flds"
  shows "((\<exists>number b m. IdGenerator_assemble flds parts = Inl (OutOfBitsRange number b m)) \<longleftrightarrow>
            \<not> list_all2 (\<lambda>number field. within_mask field number) parts flds) \<and>
         (list_all2 (\<lambda>number field. within_mask field number) parts flds \<longrightarrow>
            IdGenerator_assemble flds parts = Inr (spec_closed_form flds parts))"
proof (cases "list_all2 (\<lambda>number field. within_mask field number) parts flds")
  case True
  then have "IdGenerator_assemble flds parts = Inr (spec_closed_form flds parts)"
    using assms(1) assemble_loop_spec [OF True] by (simp add: IdGenerator_assemble_def)
  with True show ?thesis by simp
next
  case False
  with assms have "\<exists>number b m. assemble_loop 0 (zip parts flds) = Inl (OutOfBitsRange number b m)"
    by (rule assemble_loop_out_of_range)
  with False assms(1) show ?thesis by (simp add: IdGenerator_assemble_def)
qed

theorem assemble_error_iff_witness:
  "length [1, 5, 42 :: int] = length order_fields \<and>
   list_all (\<lambda>field. 0 \<le> bits field) order_fields \<and>
   list_all2 (\<lambda>number field. within_mask field number) [1, 5, 42] order_fields \<and>
   IdGenerator_assemble order_fields [1, 5, 42] = Inr 35184372416554 \<and>
   \<not> list_all2 (\<lambda>number field. within_mask field number) [2, 5, 42] order_fields \<and>
   (\<exists>number b m. IdGenerator_assemble order_fields [2, 5, 42] = Inl (OutOfBitsRange number b m))"
  using assemble_error_iff [of "[1, 5, 42]" order_fields]
    assemble_error_iff [of "[2, 5, 42]" order_fields]
  by (simp add: order_fields_def within_mask_def spec_closed_form_def total_bits_def)

text \<open>
  Claim C8 (iteration against the closed form). For parts within their masks the
  shift-and-or loop of \<^verbatim>\<open>_assemble\<close> returns the sum of the parts, each shifted
  left by the total width of the fields declared after it.
\<close>

theorem assemble_spec_closed_form:
  assumes "list_all2 (\<lambda>number field. within_mask field number) parts flds"
  shows "IdGenerator_assemble flds parts = Inr (spec_closed_form flds parts)"
  using assms assemble_loop_spec [OF assms] list_all2_lengthD [OF assms]
  by (simp add: IdGenerator_assemble_def)

theorem assemble_spec_closed_form_witness:
  "list_all2 (\<lambda>number field. within_mask field number) [1, 5, 42] order_fields \<and>
   IdGenerator_assemble order_fields [1, 5, 42] = Inr 35184372416554"
  using assemble_spec_closed_form [of "[1, 5, 42]" order_fields]
  by (simp add: order_fields_def within_mask_def spec_closed_form_def total_bits_def)

lemma drop_bit_eq_0_iff_int:
  fixes n :: int
  assumes "0 \<le> n"
  shows "drop_bit w n = 0 \<longleftrightarrow> n < 2 ^ w"
  using assms by (auto simp: drop_bit_eq_div zdiv_eq_0_iff)

text \<open>
  Claim C3 (malformed detection). With \<open>W\<close> the total declared width and a non-negative
  \<open>id_num\<close>, \<^verbatim>\<open>_disassemble\<close> raises its highest-part error exactly when
  \<open>2 ^ W \<le> id_num\<close>, and returns a list of parts when \<open>id_num < 2 ^ W\<close>.
\<close>

theorem disassemble_malformed_iff:
  assumes "list_all (\<lambda>field. 0 \<le> bits field) flds" and "0 \<le> id_num"
  shows "((\<exists>rest. IdGenerator_disassemble flds id_num = Inl (HighestPartNotZero rest)) \<longleftrightarrow>
            2 ^ nat (total_bits flds) \<le> id_num) \<and>
         (id_num < 2 ^ nat (total_bits flds) \<longrightarrow>
            (\<exists>parts. IdGenerator_disassemble flds id_num = Inr parts))"
  using assms(2) by (auto simp: disassemble_eq [OF assms(1)] drop_bit_eq_0_iff_int)

theorem disassemble_malformed_iff_witness:
  "list_all (\<lambda>field. 0 \<le> bits field) order_fields \<and>
   (0::int) \<le> 70368744177664 \<and> (2::int) ^ nat (total_bits order_fields) \<le> 70368744177664 \<and>
   (\<exists>rest. IdGenerator_disassemble order_fields 70368744177664 = Inl (HighestPartNotZero rest)) \<and>
   (0::int) \<le> 35184372416554 \<and> (35184372416554::int) < 2 ^ nat (total_bits order_fields) \<and>
   (\<exists>parts. IdGenerator_disassemble order_fields 35184372416554 = Inr parts)"
  using disassemble_malformed_iff [of order_fields 70368744177664]
    disassemble_malformed_iff [of order_fields 35184372416554]
  by (simp add: order_fields_def total_bits_def)

lemma within_low_parts:
  "list_all (\<lambda>f. 0 \<le> bits f) fs \<Longrightarrow> list_all2 (\<lambda>p f. within_mask f p) (low_parts n fs) fs"
proof (induction fs arbitrary: n)
  case Nil
  show ?case by simp
next
  case (Cons f fs)
  have "take_bit (nat (bits f)) n < 2 ^ nat (bits f)" by simp
  with Cons show ?case by (simp add: within_mask_def)
qed

lemma rev_low_parts_nth:
  assumes "i < length fs"
  shows "rev (low_parts n (rev fs)) ! i =
    take_bit (nat (bits (fs ! i))) (drop_bit (sum_list (map (\<lambda>f. nat (bits f)) (drop (Suc i) fs))) n)"
proof -
  let ?k = "length fs - Suc i"
  have k: "?k < length (rev fs)" using assms by simp
  have "rev (low_parts n (rev fs)) ! i = low_parts n (rev fs) ! ?k"
    using assms by (simp add: rev_nth length_low_parts)
  also have "\<dots> = take_bit (nat (bits (rev fs ! ?k)))
      (drop_bit (sum_list (map (\<lambda>f. nat (bits f)) (take ?k (rev fs)))) n)"
    using k by (rule low_parts_nth)
  also have "rev fs ! ?k = fs ! i" using assms by (simp add: rev_nth)
  also have "take ?k (rev fs) = rev (drop (Suc i) fs)" using assms by (simp add: take_rev)
  also have "sum_list (map (\<lambda>f. nat (bits f)) (rev (drop (Suc i) fs))) =
      sum_list (map (\<lambda>f. nat (bits f)) (drop (Suc i) fs))"
    by (simp add: rev_map [symmetric])
  finally show ?thesis .
qed

text \<open>
  Claim C10 (parts of a disassembly). Whenever \<^verbatim>\<open>_disassemble\<close> returns, the result
  has one part per field, in field order: part \<open>i\<close> is the \<open>bits\<close> wide slice of
  \<open>id_num\<close> above the widths of the later fields, and it lies in \<open>[0, 2 ^ bits - 1]\<close>.
\<close>

theorem disassemble_parts_within_masks:
  assumes "IdGenerator_disassemble flds id_num = Inr parts"
  shows "length parts = length flds \<and>
         list_all2 (\<lambda>number field. within_mask field number) parts flds \<and>
         (\<forall>i<length flds. parts ! i =
            take_bit (nat (bits (flds ! i))) (drop_bit (nat (total_bits (drop (Suc i) flds))) id_num))"
proof -
  have wf: "list_all (\<lambda>f. 0 \<le> bits f) flds"
  proof (rule ccontr)
    assume "\<not> list_all (\<lambda>f. 0 \<le> bits f) flds"
    then have "\<not> list_all (\<lambda>f. 0 \<le> bits f) (rev flds)" by (simp add: list_all_iff)
    then have "disassemble_loop id_num [] (rev flds) = Inl NegativeShiftCount"
      by (rule disassemble_loop_neg)
    with assms show False by (simp add: IdGenerator_disassemble_def)
  qed
  from assms have parts: "parts = rev (low_parts id_num (rev flds))"
    by (simp add: disassemble_eq [OF wf] split: if_splits)
  have "list_all (\<lambda>f. 0 \<le> bits f) (rev flds)" using wf by (simp add: list_all_iff)
  then have "list_all2 (\<lambda>p f. within_mask f p) (low_parts id_num (rev flds)) (rev flds)"
    by (rule within_low_parts)
  then have w: "list_all2 (\<lambda>p f. within_mask f p) parts flds"
    by (simp add: parts list_all2_rev1)
  have "parts ! i =
      take_bit (nat (bits (flds ! i))) (drop_bit (nat (total_bits (drop (Suc i) flds))) id_num)"
    if "i < length flds" for i
  proof -
    have "list_all (\<lambda>f. 0 \<le> bits f) (drop (Suc i) flds)"
      using wf by (auto simp: list_all_iff dest: in_set_dropD)
    then show ?thesis
      by (simp add: parts rev_low_parts_nth [OF that] nat_total_bits)
  qed
  with w list_all2_lengthD [OF w] show ?thesis by simp
qed

theorem disassemble_parts_within_masks_witness:
  "IdGenerator_disassemble order_fields 35184372416554 = Inr [1, 5, 42] \<and>
   length [1, 5, 42 :: int] = length order_fields \<and>
   list_all2 (\<lambda>number field. within_mask field number) [1, 5, 42] order_fields \<and>
   [1, 5, 42] ! 1 =
     take_bit (nat (bits (order_fields ! 1)))
       (drop_bit (nat (total_bits (drop (Suc 1) order_fields))) (35184372416554 :: int))"
proof -
  have "IdGenerator_disassemble order_fields 35184372416554 = Inr [1, 5, 42]"
    by (simp add: order_fields_def IdGenerator_disassemble_def mask_field_def mask_bits_def
        py_lshift_def py_rshift_def)
  moreover have "(1::nat) < length order_fields" by (simp add: order_fields_def)
  ultimately show ?thesis
    using disassemble_parts_within_masks [of order_fields 35184372416554 "[1, 5, 42]"]
    by blast
qed

section \<open>Verification of the fields and of generation\<close>



text \<open>
  The constructor calls of \<^verbatim>\<open>get_generators\<close> for \<^verbatim>\<open>'order'\<close> build the objects
  of \<open>order_fields\<close>.
\<close>

lemma order_fields_constructed:
  "NumberField_init ''placeholder'' 1 1 None = Inr (order_fields ! 0)"
  "datetime_new 2018 1 1 0 0 0 = Inr base_2018"
  "DateTimeField ''time'' 29 SECOND base_2018 = order_fields ! 1"
  "SequenceField_init ''sequence'' 16 (Inr (0, 10000)) (Inr (1, 10)) (Some [''time''])
     (Some ''order'') own = order_fields ! 2"
  by (simp_all add: order_fields_def NumberField_init_def mask_bits_def py_lshift_def
      SequenceField_init_def APPNAME_def base_2018_def datetime_new_def check_date_fields_def
      check_time_fields_def MINYEAR_def MAXYEAR_def days_in_month_def DAYS_IN_MONTH_def)

text \<open>
  Claim C5 (number field). \<^verbatim>\<open>NumberField.decode(n)\<close> returns \<open>n\<close> when
  \<open>start \<le> n \<le> end\<close> and raises its range error otherwise; \<^verbatim>\<open>encode\<close> is the
  identity on integers; \<^verbatim>\<open>end\<close> is the given one, or \<open>2 ^ bits - 1\<close> when it is
  \<^verbatim>\<open>None\<close>.
\<close>

theorem NumberField_decode_encode:
  "decode (NumberField nm b start end) n =
     (if start \<le> n \<and> n \<le> end then Inr (IntV n) else Inl (FieldOutOfRange nm n)) \<and>
   encode (NumberField nm b start end) (IntV v) = Inr v \<and>
   NumberField_init nm b start (Some e) = Inr (NumberField nm b start e) \<and>
   (0 \<le> b \<longrightarrow> NumberField_init nm b start None = Inr (NumberField nm b start (2 ^ nat b - 1)))"
  by (simp add: NumberField_init_def mask_bits_def py_lshift_def)

theorem NumberField_decode_encode_witness:
  "(0::int) \<le> 1 \<and> NumberField_init ''placeholder'' 1 1 None = Inr (NumberField ''placeholder'' 1 1 1) \<and>
   decode (NumberField ''placeholder'' 1 1 1) 1 = Inr (IntV 1) \<and>
   decode (NumberField ''placeholder'' 1 1 1) 0 = Inl (FieldOutOfRange ''placeholder'' 0)"
  using NumberField_decode_encode [of "''placeholder''" 1 1 1 1 undefined undefined]
    NumberField_decode_encode [of "''placeholder''" 1 1 1 0 undefined undefined]
  by simp

lemma randint_bounds:
  assumes "a \<le> b"
  shows "\<exists>r. randint u a b = Inr r \<and> a \<le> r \<and> r \<le> b"
proof -
  have "0 < nat (b - a + 1)" using assms by simp
  then have "u mod nat (b - a + 1) < nat (b - a + 1)" by (rule mod_less_divisor)
  then have "int (u mod nat (b - a + 1)) \<le> b - a" using assms by linarith
  then show ?thesis using assms by (simp add: randint_def)
qed

lemma randint_onto:
  assumes "a \<le> r" "r \<le> b"
  shows "randint (nat (r - a)) a b = Inr r"
  using assms by (simp add: randint_def)

text \<open>
  Claim C9 (sequence step). For a \<^verbatim>\<open>SequenceField\<close> whose key is \<open>key\<close>: when the
  store holds \<open>prev\<close> for the key and the step range is not empty, \<^verbatim>\<open>generate\<close>
  returns some \<open>seq\<close> with \<open>prev + step.min \<le> seq \<le> prev + step.max\<close>, whatever the
  random draw, and writes it under the key; when the key is absent and the start range is
  not empty it returns and writes some \<open>seq\<close> of \<open>[start.min, start.max]\<close>.
\<close>

theorem SequenceField_generate_step:
  assumes "sequence_key nm keys info = Inr key"
  shows "(store cache key = Some prev \<and> fst step \<le> snd step \<longrightarrow>
           (\<exists>seq. generate ev i (SequenceField nm b start step keys cache) store info =
                     (store (cache := (store cache) (key \<mapsto> seq)), Inr (IntV seq)) \<and>
                   prev + fst step \<le> seq \<and> seq \<le> prev + snd step)) \<and>
         (store cache key = None \<and> fst start \<le> snd start \<longrightarrow>
           (\<exists>seq. generate ev i (SequenceField nm b start step keys cache) store info =
                     (store (cache := (store cache) (key \<mapsto> seq)), Inr (IntV seq)) \<and>
                   fst start \<le> seq \<and> seq \<le> snd start))"
proof (intro conjI impI)
  assume a: "store cache key = Some prev \<and> fst step \<le> snd step"
  then obtain r where r: "randint (entropy ev i) (fst step) (snd step) = Inr r"
    and b: "fst step \<le> r" "r \<le> snd step"
    using randint_bounds [of "fst step" "snd step" "entropy ev i"] by blast
  show "\<exists>seq. generate ev i (SequenceField nm b start step keys cache) store info =
                     (store (cache := (store cache) (key \<mapsto> seq)), Inr (IntV seq)) \<and>
                   prev + fst step \<le> seq \<and> seq \<le> prev + snd step"
    using a assms r b by (intro exI [of _ "prev + r"]) (simp add: next_seq_def)
next
  assume a: "store cache key = None \<and> fst start \<le> snd start"
  then obtain r where r: "randint (entropy ev i) (fst start) (snd start) = Inr r"
    and b: "fst start \<le> r" "r \<le> snd start"
    using randint_bounds [of "fst start" "snd start" "entropy ev i"] by blast
  show "\<exists>seq. generate ev i (SequenceField nm b start step keys cache) store info =
                     (store (cache := (store cache) (key \<mapsto> seq)), Inr (IntV seq)) \<and>
                   fst start \<le> seq \<and> seq \<le> snd start"
    using a assms r b by (intro exI [of _ r]) (simp add: new_seq_def)
qed

theorem SequenceField_generate_step_witness:
  "sequence_key ''sequence'' [''time''] [''time'' \<mapsto> StrV ''2018-01-01 00:00:05''] =
     Inr ''2018-01-01 00:00:05'' \<and>
   (empty_store (order_cache := [''2018-01-01 00:00:05'' \<mapsto> 100])) order_cache
     ''2018-01-01 00:00:05'' = Some 100 \<and>
   fst (1::int, 10::int) \<le> snd (1::int, 10::int) \<and>
   (\<exists>seq. generate example_env 2
             (SequenceField ''sequence'' 16 (0, 10000) (1, 10) [''time''] order_cache)
             (empty_store (order_cache := [''2018-01-01 00:00:05'' \<mapsto> 100]))
             [''time'' \<mapsto> StrV ''2018-01-01 00:00:05''] =
           ((empty_store (order_cache := [''2018-01-01 00:00:05'' \<mapsto> 100]))
              (order_cache := [''2018-01-01 00:00:05'' \<mapsto> seq]), Inr (IntV seq)) \<and>
           100 + 1 \<le> seq \<and> seq \<le> 100 + 10) \<and>
   empty_store order_cache ''2018-01-01 00:00:05'' = None \<and>
   fst (0::int, 10000::int) \<le> snd (0::int, 10000::int) \<and>
   (\<exists>seq. generate example_env 2
             (SequenceField ''sequence'' 16 (0, 10000) (1, 10) [''time''] order_cache)
             empty_store [''time'' \<mapsto> StrV ''2018-01-01 00:00:05''] =
           (empty_store (order_cache := (empty_store order_cache) (''2018-01-01 00:00:05'' \<mapsto> seq)),
            Inr (IntV seq)) \<and>
           0 \<le> seq \<and> seq \<le> 10000)"
proof -
  have k: "sequence_key ''sequence'' [''time''] [''time'' \<mapsto> StrV ''2018-01-01 00:00:05''] =
     Inr ''2018-01-01 00:00:05''"
    by (simp add: sequence_key_def)
  have e: "empty_store order_cache ''2018-01-01 00:00:05'' = None"
    by (simp add: empty_store_def)
  show ?thesis
    using k e
      SequenceField_generate_step [OF k,
        where store = "empty_store (order_cache := [''2018-01-01 00:00:05'' \<mapsto> 100])"
        and cache = order_cache and prev = 100 and step = "(1, 10)" and start = "(0, 10000)"
        and ev = example_env and i = 2 and b = 16]
      SequenceField_generate_step [OF k, where store = empty_store
        and cache = order_cache and prev = 0 and step = "(1, 10)" and start = "(0, 10000)"
        and ev = example_env and i = 2 and b = 16]
    by simp
qed






section \<open>The calendar\<close>

lemma div_step:
  fixes y d :: int
  assumes "0 < d"
  shows "y div d = (y - 1) div d + (if y mod d = 0 then 1 else 0)"
proof (cases "y mod d = 0")
  case True
  have "d * (y div d) + y mod d = y" by (rule mult_div_mod_eq)
  with True have "y = d * (y div d)" by simp
  then have eq: "y - 1 = d * (y div d - 1) + (d - 1)" by (simp add: algebra_simps)
  have "(y - 1) div d = y div d - 1"
    by (rule int_div_pos_eq [OF eq]) (use assms in simp_all)
  with True show ?thesis by simp
next
  case False
  have "0 \<le> y mod d" "y mod d < d"
    using assms by (simp_all add: pos_mod_sign pos_mod_bound)
  with False have r: "0 \<le> y mod d - 1" "y mod d - 1 < d" by simp_all
  have eq: "y - 1 = d * (y div d) + (y mod d - 1)" by simp
  have "(y - 1) div d = y div d"
    by (rule int_div_pos_eq [OF eq r])
  with False show ?thesis by simp
qed

lemma mod_400_100: "(y::int) mod 400 = 0 \<Longrightarrow> y mod 100 = 0"
proof -
  assume a: "y mod 400 = 0"
  have "y mod 400 mod 100 = y mod 100" by (rule mod_mod_cancel) simp
  with a show ?thesis by simp
qed

lemma mod_100_4: "(y::int) mod 100 = 0 \<Longrightarrow> y mod 4 = 0"
proof -
  assume a: "y mod 100 = 0"
  have "y mod 100 mod 4 = y mod 4" by (rule mod_mod_cancel) simp
  with a show ?thesis by simp
qed


lemma days_before_year_Suc:
  "days_before_year (y + 1) = days_before_year y + (if is_leap y then 366 else 365)"
proof -
  define p4 where "p4 \<longleftrightarrow> y mod 4 = 0"
  define p100 where "p100 \<longleftrightarrow> y mod 100 = 0"
  define p400 where "p400 \<longleftrightarrow> y mod 400 = 0"
  define q4 where "q4 = (y - 1) div 4"
  define q100 where "q100 = (y - 1) div 100"
  define q400 where "q400 = (y - 1) div 400"
  have d4: "y div 4 = q4 + (if p4 then 1 else 0)"
    unfolding p4_def q4_def by (rule div_step) simp
  have d100: "y div 100 = q100 + (if p100 then 1 else 0)"
    unfolding p100_def q100_def by (rule div_step) simp
  have d400: "y div 400 = q400 + (if p400 then 1 else 0)"
    unfolding p400_def q400_def by (rule div_step) simp
  have imp: "p400 \<longrightarrow> p100" "p100 \<longrightarrow> p4"
    unfolding p4_def p100_def p400_def using mod_400_100 [of y] mod_100_4 [of y] by blast+
  have leap: "is_leap y \<longleftrightarrow> p4 \<and> (\<not> p100 \<or> p400)"
    unfolding is_leap_def p4_def p100_def p400_def ..
  have e: "days_before_year (y + 1) = y * 365 + y div 4 - y div 100 + y div 400"
    by (simp add: days_before_year_def Let_def)
  have f: "days_before_year y = (y - 1) * 365 + q4 - q100 + q400"
    by (simp add: days_before_year_def Let_def q4_def q100_def q400_def)
  show ?thesis
    unfolding e f d4 d100 d400 leap using imp by (cases p4; cases p100; cases p400) simp_all
qed


lemma days_before_year_mono: "y \<le> y' \<Longrightarrow> days_before_year y \<le> days_before_year y'"
proof (induction y' rule: int_ge_induct)
  case base
  show ?case by simp
next
  case (step i)
  then show ?case by (simp add: days_before_year_Suc)
qed



lemmas month_tables = DAYS_BEFORE_MONTH_def DAYS_IN_MONTH_def








lemma day_of_year_bound:
  assumes "1 \<le> m" "m \<le> 12" "1 \<le> d"
    and "d \<le> (if m = 2 \<and> L then 29 else DAYS_IN_MONTH ! nat m)"
  shows "0 \<le> DAYS_BEFORE_MONTH ! nat m + (if 2 < m \<and> L then 1 else 0) + d - 1"
    and "DAYS_BEFORE_MONTH ! nat m + (if 2 < m \<and> L then 1 else 0) + d - 1 <
      365 + (if L then 1 else 0)"
proof -
  consider "m = 1" | "m = 2" | "m = 3" | "m = 4" | "m = 5" | "m = 6"
    | "m = 7" | "m = 8" | "m = 9" | "m = 10" | "m = 11" | "m = 12"
    using assms(1,2) by atomize_elim arith
  then have "0 \<le> DAYS_BEFORE_MONTH ! nat m + (if 2 < m \<and> L then 1 else 0) + d - 1 \<and>
    DAYS_BEFORE_MONTH ! nat m + (if 2 < m \<and> L then 1 else 0) + d - 1 < 365 + (if L then 1 else 0)"
    using assms(3,4) by cases (simp_all add: month_tables split: if_splits)
  then show "0 \<le> DAYS_BEFORE_MONTH ! nat m + (if 2 < m \<and> L then 1 else 0) + d - 1"
    and "DAYS_BEFORE_MONTH ! nat m + (if 2 < m \<and> L then 1 else 0) + d - 1 <
      365 + (if L then 1 else 0)"
    by simp_all
qed


lemma ymd2ord_bounds:
  assumes "check_date_fields y m d"
  shows "1 \<le> ymd2ord y m d" "ymd2ord y m d \<le> MAXORDINAL"
proof -
  from assms have y: "1 \<le> y" "y \<le> 9999" and m: "1 \<le> m" "m \<le> 12" and d: "1 \<le> d"
    and dm: "d \<le> (if m = 2 \<and> is_leap y then 29 else DAYS_IN_MONTH ! nat m)"
    by (simp_all add: check_date_fields_def MINYEAR_def MAXYEAR_def days_in_month_def)
  define k where "k = DAYS_BEFORE_MONTH ! nat m + (if 2 < m \<and> is_leap y then 1 else 0) + d - 1"
  have k: "0 \<le> k" "k < 365 + (if is_leap y then 1 else 0)"
    unfolding k_def using m d dm by (rule day_of_year_bound)+
  have ord: "ymd2ord y m d = days_before_year y + k + 1"
    by (simp add: ymd2ord_def days_before_month_def k_def)
  have "days_before_year 1 \<le> days_before_year y" using y(1) by (rule days_before_year_mono)
  then have lo: "0 \<le> days_before_year y" by (simp add: days_before_year_def)
  have "y + 1 \<le> 10000" using y(2) by simp
  then have "days_before_year (y + 1) \<le> days_before_year 10000" by (rule days_before_year_mono)
  moreover have "days_before_year 10000 = 3652059" by (simp add: days_before_year_def)
  ultimately have hi: "days_before_year y + (if is_leap y then 366 else 365) \<le> 3652059"
    by (simp add: days_before_year_Suc)
  show "1 \<le> ymd2ord y m d" using lo k by (simp add: ord)
  show "ymd2ord y m d \<le> MAXORDINAL" using hi k by (simp add: ord MAXORDINAL_def split: if_splits)
qed

section \<open>When \<^verbatim>\<open>decode\<close> returns\<close>

lemma TimeField_decode_ok_iff:
  "(\<exists>v. decode (TimeField nm b tp) n = Inr v) \<longleftrightarrow>
     0 \<le> n * TimeField_Precision_value tp \<and> n * TimeField_Precision_value tp < 86400"
proof -
  define seconds where "seconds = n * TimeField_Precision_value tp"
  define h where "h = seconds div 3600"
  define r where "r = seconds mod 3600"
  define mi where "mi = r div 60"
  define s where "s = r mod 60"
  have sec: "seconds = 3600 * h + r" and r: "0 \<le> r" "r < 3600" by (simp_all add: h_def r_def)
  have r': "r = 60 * mi + s" and s: "0 \<le> s" "s < 60" by (simp_all add: mi_def s_def)
  have mi: "0 \<le> mi" "mi \<le> 59" using r r' s by linarith+
  have dec: "decode (TimeField nm b tp) n =
      (case time_new h mi s of Inl e \<Rightarrow> Inl e | Inr t \<Rightarrow> Inr (StrV (strftime t (TIME_FORMATS tp))))"
    by (simp add: Let_def seconds_def h_def r_def mi_def s_def)
  have "(\<exists>v. decode (TimeField nm b tp) n = Inr v) \<longleftrightarrow> 0 \<le> h \<and> h \<le> 23"
    using mi s by (auto simp: dec time_new_def check_time_fields_def simp del: decode.simps)
  also have "\<dots> \<longleftrightarrow> 0 \<le> seconds \<and> seconds < 86400"
    using sec r by linarith
  finally show ?thesis by (simp add: seconds_def)
qed

lemma timestamp_bounds:
  assumes "valid_datetime dt"
  shows "86400 \<le> timestamp dt" "timestamp dt < 86400 * (MAXORDINAL + 1)"
proof -
  from assms have d: "check_date_fields (year dt) (month dt) (day dt)"
    and t: "check_time_fields (hour dt) (minute dt) (second dt)"
    by (simp_all add: valid_datetime_def)
  have o: "1 \<le> toordinal dt" "toordinal dt \<le> MAXORDINAL"
    unfolding toordinal_def using d by (rule ymd2ord_bounds)+
  have sod: "0 \<le> second dt + minute dt * 60 + hour dt * 3600"
    "second dt + minute dt * 60 + hour dt * 3600 < 86400"
    using t by (simp_all add: check_time_fields_def)
  show "86400 \<le> timestamp dt" using o sod by (simp add: timestamp_def)
  show "timestamp dt < 86400 * (MAXORDINAL + 1)" using o sod by (simp add: timestamp_def)
qed

lemma add_seconds_ok_iff:
  assumes "valid_datetime base"
  shows "(\<exists>dt. add_seconds base seconds = Inr dt) \<longleftrightarrow>
     86400 \<le> timestamp base + seconds \<and> timestamp base + seconds < 86400 * (MAXORDINAL + 1)"
proof -
  define total where "total = timestamp base + seconds"
  define days where "days = total div 86400"
  define rem where "rem = total mod 86400"
  define sd where "sd = seconds div 86400"
  define sr where "sr = seconds mod 86400"
  have tot: "total = 86400 * days + rem" and rem: "0 \<le> rem" "rem < 86400"
    by (simp_all add: days_def rem_def)
  have sec: "seconds = 86400 * sd + sr" and sr: "0 \<le> sr" "sr < 86400"
    by (simp_all add: sd_def sr_def)
  note tb = timestamp_bounds [OF assms]
  have add: "add_seconds base seconds =
     (if sd < - 999999999 \<or> 999999999 < sd then Inl OverflowError
      else if 0 < days \<and> days \<le> MAXORDINAL
           then (case ord2ymd days of
                   (y, m, d) \<Rightarrow>
                     Inr \<lparr>year = y, month = m, day = d, hour = rem div 3600,
                          minute = rem mod 3600 div 60, second = rem mod 3600 mod 60\<rparr>)
           else Inl OverflowError)"
    by (simp add: add_seconds_def Let_def sd_def days_def rem_def total_def timestamp_def
        add.assoc)
  have in_range: "0 < days \<and> days \<le> MAXORDINAL \<longleftrightarrow>
      86400 \<le> total \<and> total < 86400 * (MAXORDINAL + 1)"
    using tot rem by (simp add: MAXORDINAL_def) arith
  have small: "\<not> (sd < - 999999999 \<or> 999999999 < sd)"
    if "86400 \<le> total \<and> total < 86400 * (MAXORDINAL + 1)"
    using that tb sec sr by (simp add: total_def MAXORDINAL_def)
  show ?thesis
    unfolding total_def [symmetric]
    using in_range small by (auto simp: add split: prod.splits)
qed

lemma DateTimeField_decode_ok_iff:
  assumes "valid_datetime base"
  shows "(\<exists>v. decode (DateTimeField nm b dp base) n = Inr v) \<longleftrightarrow>
     86400 \<le> timestamp base + n * DateTimeField_Precision_value dp \<and>
     timestamp base + n * DateTimeField_Precision_value dp < 86400 * (MAXORDINAL + 1)"
proof -
  have "(\<exists>v. decode (DateTimeField nm b dp base) n = Inr v) \<longleftrightarrow>
      (\<exists>dt. add_seconds base (n * DateTimeField_Precision_value dp) = Inr dt)"
    by (auto split: sum.splits)
  then show ?thesis by (simp only: add_seconds_ok_iff [OF assms])
qed

text \<open>
  Claim C6, as amended. \<^verbatim>\<open>SequenceField.decode\<close> returns every integer unchanged.
  \<^verbatim>\<open>TimeField.decode(n)\<close> returns exactly when \<open>0 \<le> n * precision < 86400\<close>, the
  seconds of one day. \<^verbatim>\<open>DateTimeField.decode(n)\<close>, for a valid base, returns exactly
  when the instant \<open>n * precision\<close> seconds after the base lies in the years 1 to 9999.
\<close>

theorem decode_success_conditions:
  "decode (SequenceField nm b start step keys cache) n = Inr (IntV n) \<and>
   ((\<exists>v. decode (TimeField nm b tp) n = Inr v) \<longleftrightarrow>
      0 \<le> n * TimeField_Precision_value tp \<and> n * TimeField_Precision_value tp < 86400) \<and>
   (valid_datetime base \<longrightarrow>
      ((\<exists>v. decode (DateTimeField nm b dp base) n = Inr v) \<longleftrightarrow>
         86400 \<le> timestamp base + n * DateTimeField_Precision_value dp \<and>
         timestamp base + n * DateTimeField_Precision_value dp < 86400 * (MAXORDINAL + 1)))"
  using TimeField_decode_ok_iff DateTimeField_decode_ok_iff by simp

theorem decode_success_conditions_witness:
  "valid_datetime base_2018 \<and>
   (86400::int) \<le> timestamp base_2018 + 5 * DateTimeField_Precision_value SECOND \<and>
   timestamp base_2018 + 5 * DateTimeField_Precision_value SECOND < 86400 * (MAXORDINAL + 1) \<and>
   (\<exists>v. decode (DateTimeField ''time'' 29 SECOND base_2018) 5 = Inr v) \<and>
   (\<exists>v. decode (TimeField ''time'' 17 T_SECOND) 86399 = Inr v)"
proof -
  have v: "valid_datetime base_2018"
    by (simp add: valid_datetime_def base_2018_def check_date_fields_def check_time_fields_def
        MINYEAR_def MAXYEAR_def days_in_month_def DAYS_IN_MONTH_def)
  have t: "timestamp base_2018 = 63650448000"
    by (simp add: timestamp_def base_2018_def toordinal_def ymd2ord_def days_before_year_def
        days_before_month_def DAYS_BEFORE_MONTH_def)
  show ?thesis
    using v decode_success_conditions [where base = base_2018 and dp = SECOND and n = 5
        and nm = "''time''" and b = 29]
      decode_success_conditions [where tp = T_SECOND and n = 86399 and nm = "''time''" and b = 17]
    by (simp add: t MAXORDINAL_def)
qed

text \<open>
  Claim C6, as stated, fails: a \<^verbatim>\<open>TimeField\<close> of 17 bits and second precision raises
  for 86400, which is within its mask, and a \<^verbatim>\<open>DateTimeField\<close> of 29 bits and day
  precision raises for its mask.
\<close>

theorem decode_raises_within_mask:
  "mask_field (TimeField ''time'' 17 T_SECOND) = Inr 131071 \<and>
   (0::int) \<le> 86400 \<and> (86400::int) \<le> 131071 \<and>
   decode (TimeField ''time'' 17 T_SECOND) 86400 = Inl FieldValueOutOfRange \<and>
   mask_field (DateTimeField ''time'' 29 DAY base_2018) = Inr 536870911 \<and>
   (0::int) \<le> 536870911 \<and>
   decode (DateTimeField ''time'' 29 DAY base_2018) 536870911 = Inl OverflowError"
  by (intro conjI; code_simp)

section \<open>Formatting and parsing canonical strings\<close>

lemma of_char_digit_char: "d < 10 \<Longrightarrow> of_char (digit_char d) = 48 + d"
  by (simp add: digit_char_def)






lemma in_range_digit_char:
  "d < 10 \<Longrightarrow> in_range (lo, hi) (digit_char d) \<longleftrightarrow> of_char lo \<le> 48 + d \<and> 48 + d \<le> of_char hi"
  by (simp add: in_range_def of_char_digit_char)















lemma regex_match_Lit:
  "regex_match (Lit c # items) (c # rest) = regex_match items rest"
  by simp




















section \<open>The round trip of the time fields\<close>













end
